theory Spec2Isabelle
  imports Complex_Main
begin

section \<open>Configuration\<close>

text \<open>
  The constants of \<^verbatim>\<open>optimized_jira_scrapper.py\<close> (lines 13 to 20);
  \<^verbatim>\<open>CHECKPOINT_DIR\<close> is a path and follows with the paths. \<^verbatim>\<open>MAX_WORKERS\<close> only bounds
  how many pages are in flight and has no counterpart here: the order in which pages
  complete is a parameter of the driver.
\<close>

definition BASE_URL :: string where
  "BASE_URL = ''https://issues.apache.org/jira/rest/api/2/search''"

definition MAX_RESULTS :: int where
  "MAX_RESULTS = 50"

definition MAX_RETRIES :: nat where
  "MAX_RETRIES = 5"

definition RETRY_BACKOFF :: int where
  "RETRY_BACKOFF = 5"

section \<open>Python values\<close>

text \<open>
  The values \<^verbatim>\<open>json.load\<close> and \<^verbatim>\<open>resp.json()\<close> produce: \<^verbatim>\<open>None\<close>, booleans,
  integers, strings, lists and dicts (a dict as the list of its items, keys distinct).
  Numbers with a fraction or an exponent are not modelled. The exceptions are the ones
  the modelled operations raise; \<open>FileNotFoundError\<close> also stands for
  \<^verbatim>\<open>NotADirectoryError\<close>, and \<open>OSError\<close> for the \<^verbatim>\<open>OSError\<close> of a name that is too long. No
  handler of the program tells them apart.
\<close>

datatype json =
    JNull
  | JBool bool
  | JInt int
  | JStr string
  | JList "json list"
  | JObj "(string \<times> json) list"

datatype py_error =
    AttributeError
  | TypeError
  | ValueError
  | JSONDecodeError
  | UnicodeDecodeError
  | OverflowError
  | FileNotFoundError
  | IsADirectoryError
  | OSError

definition bind_err :: "py_error + 'a \<Rightarrow> ('a \<Rightarrow> py_error + 'b) \<Rightarrow> py_error + 'b" where
  "bind_err r f = (case r of Inl e \<Rightarrow> Inl e | Inr v \<Rightarrow> f v)"

text \<open>Truth value of a value, as \<^verbatim>\<open>if data\<close> and \<^verbatim>\<open>x or y\<close> test it.\<close>

fun truthy :: "json \<Rightarrow> bool" where
  "truthy JNull = False"
| "truthy (JBool b) = b"
| "truthy (JInt n) = (n \<noteq> 0)"
| "truthy (JStr s) = (s \<noteq> [])"
| "truthy (JList xs) = (xs \<noteq> [])"
| "truthy (JObj kvs) = (kvs \<noteq> [])"

text \<open>\<^verbatim>\<open>d.get(key, default)\<close>: only a dict has the method.\<close>

fun py_get :: "json \<Rightarrow> string \<Rightarrow> json \<Rightarrow> py_error + json" where
  "py_get (JObj kvs) k d = Inr (case map_of kvs k of None \<Rightarrow> d | Some v \<Rightarrow> v)"
| "py_get _ k d = Inl AttributeError"

text \<open>\<^verbatim>\<open>d.get(k1, {}).get(k2, default)\<close>.\<close>

definition py_get2 :: "json \<Rightarrow> string \<Rightarrow> string \<Rightarrow> json \<Rightarrow> py_error + json" where
  "py_get2 d k1 k2 dflt = bind_err (py_get d k1 (JObj [])) (\<lambda>x. py_get x k2 dflt)"

text \<open>
  Iteration (\<^verbatim>\<open>for x in v\<close>): a list gives its elements, a string its characters, a
  dict its keys; the other values are not iterable.
\<close>

fun py_iter :: "json \<Rightarrow> py_error + json list" where
  "py_iter (JList xs) = Inr xs"
| "py_iter (JStr s) = Inr (map (\<lambda>c. JStr [c]) s)"
| "py_iter (JObj kvs) = Inr (map (\<lambda>kv. JStr (fst kv)) kvs)"
| "py_iter _ = Inl TypeError"

text \<open>A value used as an integer (an argument of \<^verbatim>\<open>range\<close>): \<^verbatim>\<open>bool\<close> is an \<^verbatim>\<open>int\<close>.\<close>

fun py_index :: "json \<Rightarrow> py_error + int" where
  "py_index (JInt n) = Inr n"
| "py_index (JBool b) = Inr (if b then 1 else 0)"
| "py_index _ = Inl TypeError"

text \<open>\<^verbatim>\<open>v == 0\<close>.\<close>

fun is_zero :: "json \<Rightarrow> bool" where
  "is_zero (JInt n) = (n = 0)"
| "is_zero (JBool b) = (\<not> b)"
| "is_zero _ = False"

text \<open>\<^verbatim>\<open>range(start, stop, step)\<close> as a list.\<close>

function range_up :: "int \<Rightarrow> int \<Rightarrow> int \<Rightarrow> int list" where
  "range_up i stop step =
     (if 0 < step \<and> i < stop then i # range_up (i + step) stop step else [])"
  by pat_completeness auto
termination
  by (relation "measure (\<lambda>(i, stop, step). nat (stop - i))") auto

function range_down :: "int \<Rightarrow> int \<Rightarrow> int \<Rightarrow> int list" where
  "range_down i stop step =
     (if step < 0 \<and> stop < i then i # range_down (i + step) stop step else [])"
  by pat_completeness auto
termination
  by (relation "measure (\<lambda>(i, stop, step). nat (i - stop))") auto

declare range_up.simps [simp del] range_down.simps [simp del]

definition py_range :: "int \<Rightarrow> int \<Rightarrow> int \<Rightarrow> py_error + int list" where
  "py_range start stop step =
     (if step = 0 then Inl ValueError
      else if 0 < step then Inr (range_up start stop step)
      else Inr (range_down start stop step))"

section \<open>Page planner\<close>

text \<open>
  Line 205: \<^verbatim>\<open>[start for start in range(start_checkpoint, total, MAX_RESULTS)]\<close>,
  with the page size as a parameter.
\<close>

definition plan :: "int \<Rightarrow> int \<Rightarrow> int \<Rightarrow> py_error + int list" where
  "plan total_count resume_offset page_size = py_range resume_offset total_count page_size"

section \<open>Resilient call executor\<close>

text \<open>
  What one \<^verbatim>\<open>requests.get\<close> does: it raises a \<^verbatim>\<open>RequestException\<close> (connection error,
  timeout), or returns a response. Of a response the code reads the status code, the
  \<^verbatim>\<open>Retry-After\<close> header through \<^verbatim>\<open>int(...)\<close>, and the body through \<^verbatim>\<open>resp.json()\<close>.
  The header is \<open>Absent\<close>, a text that \<^verbatim>\<open>int\<close> converts to \<open>n\<close> (\<open>Int_text n\<close>), or a text
  on which \<^verbatim>\<open>int\<close> raises \<^verbatim>\<open>ValueError\<close> (\<open>Other_text\<close>, an HTTP date for one). The
  body is \<open>Some v\<close> when it parses to \<open>v\<close> and \<open>None\<close> when \<^verbatim>\<open>resp.json()\<close> raises, which
  is a \<^verbatim>\<open>RequestException\<close> too (requests 2.27 and later).
\<close>

datatype retry_after_header = Absent | Int_text int | Other_text

datatype outcome =
    Response int retry_after_header "json option"
  | RequestException

text \<open>
  The observable effects of the executor, in order: the GET of an attempt, a sleep,
  a printed line (the values it interpolates).
\<close>

datatype message =
    Rate_limit int
  | Server_error int int nat
  | Unexpected_response int
  | Network_error int nat
  | Failed_after nat
  | Corrupted_checkpoint string

datatype event = Get nat | Sleep int | Print message

datatype control = Continue | Return json | Raise py_error

text \<open>
  One pass of the loop body of \<^verbatim>\<open>safe_request\<close> (lines 46 to 65). \<^verbatim>\<open>time.sleep\<close> raises
  \<^verbatim>\<open>ValueError\<close> on a negative argument and \<^verbatim>\<open>OverflowError\<close> on more than 9223372036
  seconds, which do not fit its clock (the platform may refuse a duration just below
  that bound as well); line 62 catches neither. \<^verbatim>\<open>None\<close> is \<open>JNull\<close>.
\<close>

definition MAX_SLEEP :: int where
  "MAX_SLEEP = 9223372036"

fun attempt_once :: "nat \<Rightarrow> outcome \<Rightarrow> event list \<times> control" where
  "attempt_once attempt RequestException =
     (let wait = min (RETRY_BACKOFF * int attempt) 60
      in ([Get attempt, Print (Network_error wait attempt), Sleep wait], Continue))"
| "attempt_once attempt (Response status_code header body) =
     (if status_code = 200 then
        (case body of
           Some v \<Rightarrow> ([Get attempt], Return v)
         | None \<Rightarrow>
            (let wait = min (RETRY_BACKOFF * int attempt) 60
             in ([Get attempt, Print (Network_error wait attempt), Sleep wait], Continue)))
      else if status_code = 429 then
        (case header of
           Other_text \<Rightarrow> ([Get attempt], Raise ValueError)
         | _ \<Rightarrow>
            (let retry_after = (case header of Int_text n \<Rightarrow> n | _ \<Rightarrow> 60)
             in if retry_after < 0
                then ([Get attempt, Print (Rate_limit retry_after)], Raise ValueError)
                else if MAX_SLEEP < retry_after
                then ([Get attempt, Print (Rate_limit retry_after)], Raise OverflowError)
                else ([Get attempt, Print (Rate_limit retry_after), Sleep retry_after],
                      Continue)))
      else if 500 \<le> status_code \<and> status_code < 600 then
        (let wait = min (RETRY_BACKOFF * int attempt) 60
         in ([Get attempt, Print (Server_error status_code wait attempt), Sleep wait],
             Continue))
      else ([Get attempt, Print (Unexpected_response status_code)], Return JNull))"

text \<open>
  The loop over the attempts (line 45), and what follows it (lines 66 and 67). The
  first argument gives the outcome of the GET of each attempt.
\<close>

fun retry_loop :: "(nat \<Rightarrow> outcome) \<Rightarrow> nat list \<Rightarrow> event list \<times> (py_error + json)" where
  "retry_loop net [] = ([Print (Failed_after MAX_RETRIES)], Inr JNull)"
| "retry_loop net (attempt # rest) =
     (case attempt_once attempt (net attempt) of
        (evs, Continue) \<Rightarrow> (case retry_loop net rest of (evs', r) \<Rightarrow> (evs @ evs', r))
      | (evs, Return v) \<Rightarrow> (evs, Inr v)
      | (evs, Raise e) \<Rightarrow> (evs, Inl e))"

type_synonym params = "(string \<times> json) list"

text \<open>The remote service: the outcome of each attempt of a call, by URL and parameters.\<close>

type_synonym network = "string \<Rightarrow> params \<Rightarrow> nat \<Rightarrow> outcome"

definition safe_request :: "network \<Rightarrow> string \<Rightarrow> params \<Rightarrow> event list \<times> (py_error + json)" where
  "safe_request net url ps = retry_loop (net url ps) [1..<MAX_RETRIES + 1]"

text \<open>Projections of a trace.\<close>

fun sleeps :: "event list \<Rightarrow> int list" where
  "sleeps [] = []"
| "sleeps (Sleep s # evs) = s # sleeps evs"
| "sleeps (_ # evs) = sleeps evs"

fun gets :: "event list \<Rightarrow> nat list" where
  "gets [] = []"
| "gets (Get a # evs) = a # gets evs"
| "gets (_ # evs) = gets evs"

section \<open>Checkpoint store\<close>

text \<open>
  Paths as \<^verbatim>\<open>pathlib\<close> builds them on a POSIX system. A path is absolute or relative
  and has a list of parts; parsing a text splits it at \<^verbatim>\<open>/\<close> and drops the empty parts
  and the parts \<^verbatim>\<open>.\<close> (a part \<^verbatim>\<open>..\<close> stays). The operator \<^verbatim>\<open>/\<close> appends the parts of its
  right operand, and gives the right operand alone when that one is absolute. (The
  root \<^verbatim>\<open>//\<close> is the root \<^verbatim>\<open>/\<close> here.)
\<close>

fun split_sep :: "string \<Rightarrow> string list" where
  "split_sep [] = [[]]"
| "split_sep (c # cs) =
     (if c = CHR ''/'' then [] # split_sep cs
      else (case split_sep cs of [] \<Rightarrow> [[c]] | p # ps \<Rightarrow> (c # p) # ps))"

record path =
  absolute :: bool
  parts :: "string list"

definition pure_path :: "string \<Rightarrow> path" where
  "pure_path s =
     \<lparr>absolute = (case s of [] \<Rightarrow> False | c # cs \<Rightarrow> c = CHR ''/''),
      parts = filter (\<lambda>p. p \<noteq> [] \<and> p \<noteq> ''.'') (split_sep s)\<rparr>"

definition joinpath :: "path \<Rightarrow> string \<Rightarrow> path" where
  "joinpath p s =
     (let q = pure_path s
      in if absolute q then q else \<lparr>absolute = absolute p, parts = parts p @ parts q\<rparr>)"

fun join_sep :: "string list \<Rightarrow> string" where
  "join_sep [] = []"
| "join_sep [p] = p"
| "join_sep (p # ps) = p @ ''/'' @ join_sep ps"

definition path_text :: "path \<Rightarrow> string" where
  "path_text p = (if absolute p then ''/'' else []) @ join_sep (parts p)"

definition CHECKPOINT_DIR :: path where
  "CHECKPOINT_DIR = pure_path ''checkpoints''"

text \<open>Lines 76 and 89: \<^verbatim>\<open>CHECKPOINT_DIR / f"{project_key}_checkpoint.json"\<close>.\<close>

definition checkpoint_file :: "string \<Rightarrow> path" where
  "checkpoint_file project_key = joinpath CHECKPOINT_DIR (project_key @ ''_checkpoint.json'')"

text \<open>
  The file system, as far as the program reaches it: the working directory, the
  directories, and the regular files with what \<^verbatim>\<open>json.load\<close> makes of each: bytes that
  are no text (\<open>NotText\<close>), a text that is no JSON (\<open>NotJson\<close>), or a value (\<open>Json v\<close>). A
  place is the list of names from the root. There are no links, a name is at most 255
  bytes and a path at most 4095, and the process may read and write every file and
  search every directory.
\<close>

datatype file_content = NotText | NotJson | Json json

record filesystem =
  cwd :: "string list"
  is_dir :: "string list \<Rightarrow> bool"
  file_at :: "string list \<Rightarrow> file_content option"

text \<open>
  Path resolution: each part is looked up in the place reached so far, which has to
  be a directory, and is refused when it is longer than a name may be; \<^verbatim>\<open>..\<close> leads to
  the parent.
\<close>

fun walk :: "(string list \<Rightarrow> bool) \<Rightarrow> string list \<Rightarrow> string list \<Rightarrow> py_error + string list" where
  "walk dir place [] = Inr place"
| "walk dir place (p # ps) =
     (if \<not> dir place then Inl FileNotFoundError
      else if 255 < length p then Inl OSError
      else walk dir (if p = ''..'' then butlast place else place @ [p]) ps)"

text \<open>
  The place a path names, or the error of the system call on it. Python raises
  \<^verbatim>\<open>ValueError\<close> on a NUL byte before it calls the system, and the system refuses a
  path that is too long before it resolves it.
\<close>

definition os_locate :: "filesystem \<Rightarrow> path \<Rightarrow> py_error + string list" where
  "os_locate fs p =
     (if list_ex (\<lambda>part. CHR 0x00 \<in> set part) (parts p) then Inl ValueError
      else if 4095 < length (path_text p) then Inl OSError
      else walk (is_dir fs) (if absolute p then [] else cwd fs) (parts p))"

text \<open>
  \<^verbatim>\<open>f.exists()\<close>: false on a NUL byte and on a missing file or directory; the error of a
  name that is too long is raised (Python 3.11).
\<close>

definition path_exists :: "filesystem \<Rightarrow> path \<Rightarrow> py_error + bool" where
  "path_exists fs p =
     (case os_locate fs p of
        Inl ValueError \<Rightarrow> Inr False
      | Inl FileNotFoundError \<Rightarrow> Inr False
      | Inl e \<Rightarrow> Inl e
      | Inr place \<Rightarrow> Inr (is_dir fs place \<or> file_at fs place \<noteq> None))"

text \<open>\<^verbatim>\<open>open(f, "r")\<close> and reading the file.\<close>

definition open_read :: "filesystem \<Rightarrow> path \<Rightarrow> py_error + file_content" where
  "open_read fs p =
     bind_err (os_locate fs p) (\<lambda>place.
       if is_dir fs place then Inl IsADirectoryError
       else (case file_at fs place of None \<Rightarrow> Inl FileNotFoundError | Some c \<Rightarrow> Inr c))"

text \<open>\<^verbatim>\<open>open(f, "w")\<close> and writing the file: it is created or replaced.\<close>

definition open_write :: "filesystem \<Rightarrow> path \<Rightarrow> file_content \<Rightarrow> py_error + filesystem" where
  "open_write fs p c =
     bind_err (os_locate fs p) (\<lambda>place.
       if is_dir fs place then Inl IsADirectoryError
       else Inr (fs\<lparr>file_at := (file_at fs)(place \<mapsto> c)\<rparr>))"

definition json_load :: "file_content \<Rightarrow> py_error + json" where
  "json_load c =
     (case c of
        NotText \<Rightarrow> Inl UnicodeDecodeError
      | NotJson \<Rightarrow> Inl JSONDecodeError
      | Json v \<Rightarrow> Inr v)"

text \<open>Lines 74 to 84; only \<^verbatim>\<open>JSONDecodeError\<close> is caught.\<close>

definition load_checkpoint :: "filesystem \<Rightarrow> string \<Rightarrow> event list \<times> (py_error + json)" where
  "load_checkpoint fs project_key =
     (let f = checkpoint_file project_key
      in case path_exists fs f of
           Inl e \<Rightarrow> ([], Inl e)
         | Inr found \<Rightarrow>
            if found then
              (case bind_err (open_read fs f) (\<lambda>c.
                    bind_err (json_load c) (\<lambda>d. py_get d ''last_startAt'' (JInt 0))) of
                 Inl JSONDecodeError \<Rightarrow>
                   ([Print (Corrupted_checkpoint project_key)], Inr (JInt 0))
               | r \<Rightarrow> ([], r))
            else ([], Inr (JInt 0)))"

text \<open>
  Lines 87 to 91. \<^verbatim>\<open>json.dump\<close> of a dict with an integer leaves a file that parses back
  to that dict.
\<close>

definition save_checkpoint :: "filesystem \<Rightarrow> string \<Rightarrow> int \<Rightarrow> py_error + filesystem" where
  "save_checkpoint fs project_key start_at =
     open_write fs (checkpoint_file project_key)
       (Json (JObj [(''last_startAt'', JInt start_at)]))"

text \<open>
  A save whose exception is caught: the file system is as it was. This is how a save
  ends in the loop of \<^verbatim>\<open>scrape_project\<close>, inside the \<^verbatim>\<open>try\<close> of line 217.
\<close>

definition try_save :: "filesystem \<Rightarrow> string \<Rightarrow> int \<Rightarrow> filesystem" where
  "try_save fs project_key start_at =
     (case save_checkpoint fs project_key start_at of Inl e \<Rightarrow> fs | Inr fs' \<Rightarrow> fs')"

text \<open>A sequence of \<^verbatim>\<open>save_checkpoint\<close> calls, in the order they are made.\<close>

fun save_all :: "filesystem \<Rightarrow> (string \<times> int) list \<Rightarrow> filesystem" where
  "save_all fs [] = fs"
| "save_all fs ((project_key, start_at) # calls) =
     save_all (try_save fs project_key start_at) calls"

text \<open>The offsets passed to \<^verbatim>\<open>save_checkpoint\<close> for one project, in the order of the calls.\<close>

definition offsets_for :: "string \<Rightarrow> (string \<times> int) list \<Rightarrow> int list" where
  "offsets_for project_key calls = map snd (filter (\<lambda>call. fst call = project_key) calls)"

text \<open>
  The checkpoint of a project can be written when its path leads to a place that is
  no directory. A project key is a plain file name when it has no \<^verbatim>\<open>/\<close> and no NUL byte
  and is short enough for the name of its checkpoint file. For such a key the
  checkpoint file is at \<open>checkpoint_place\<close>, and the store is usable when the working
  directory and the checkpoint directory are there (lines 23 and 24 make the latter)
  and no directory has the name of the checkpoint file.
\<close>

definition writable :: "filesystem \<Rightarrow> string \<Rightarrow> bool" where
  "writable fs project_key =
     (case os_locate fs (checkpoint_file project_key) of
        Inl e \<Rightarrow> False
      | Inr place \<Rightarrow> \<not> is_dir fs place)"

definition plain_key :: "string \<Rightarrow> bool" where
  "plain_key project_key \<longleftrightarrow>
     CHR ''/'' \<notin> set project_key \<and> CHR 0x00 \<notin> set project_key \<and> length project_key \<le> 239"

definition checkpoint_place :: "filesystem \<Rightarrow> string \<Rightarrow> string list" where
  "checkpoint_place fs project_key = cwd fs @ [''checkpoints'', project_key @ ''_checkpoint.json'']"

definition usable :: "filesystem \<Rightarrow> string \<Rightarrow> bool" where
  "usable fs project_key \<longleftrightarrow>
     plain_key project_key \<and> is_dir fs (cwd fs) \<and> is_dir fs (cwd fs @ [''checkpoints''])
     \<and> \<not> is_dir fs (checkpoint_place fs project_key)"

section \<open>Fetching\<close>

definition total_params :: "string \<Rightarrow> params" where
  "total_params project_key =
     [(''jql'', JStr (''project='' @ project_key)), (''maxResults'', JInt 1)]"

definition page_params :: "string \<Rightarrow> int \<Rightarrow> params" where
  "page_params project_key start_at =
     [(''jql'', JStr (''project='' @ project_key)), (''startAt'', JInt start_at),
      (''maxResults'', JInt MAX_RESULTS), (''expand'', JStr ''comments'')]"

text \<open>Lines 98 to 105.\<close>

definition get_total_issues :: "network \<Rightarrow> string \<Rightarrow> py_error + json" where
  "get_total_issues net project_key =
     bind_err (snd (safe_request net BASE_URL (total_params project_key)))
       (\<lambda>data. if truthy data then py_get data ''total'' (JInt 0) else Inr (JInt 0))"

text \<open>Lines 108 to 122.\<close>

definition fetch_page :: "network \<Rightarrow> string \<Rightarrow> int \<Rightarrow> py_error + int \<times> json" where
  "fetch_page net project_key start_at =
     bind_err (snd (safe_request net BASE_URL (page_params project_key start_at)))
       (\<lambda>data. if \<not> truthy data then Inr (start_at, JList [])
               else bind_err (py_get data ''issues'' (JList []))
                      (\<lambda>issues. Inr (start_at, issues)))"

section \<open>Transformation\<close>

text \<open>
  \<^verbatim>\<open>transform_issue\<close> (lines 129 to 179) builds a dict from an issue. The dict is a
  function of the issue and is represented by it (\<open>Structured issue\<close>); what is modelled
  step by step is where the function raises: a \<^verbatim>\<open>.get\<close> on a value that is not a dict, the
  iteration over the comments, \<^verbatim>\<open>.strip()\<close> on a value that is not a string, and the
  slice \<^verbatim>\<open>description[:400]\<close>.
\<close>

datatype structured = Structured json

text \<open>\<^verbatim>\<open>v.strip()\<close> succeeds on a string only.\<close>

fun has_strip :: "json \<Rightarrow> py_error + unit" where
  "has_strip (JStr s) = Inr ()"
| "has_strip _ = Inl AttributeError"

text \<open>
  \<^verbatim>\<open>v[:400]\<close> succeeds on a string and on a list. (On a dict it raises \<^verbatim>\<open>TypeError\<close>
  before Python 3.12 and \<^verbatim>\<open>KeyError\<close> from 3.12 on; the caller catches either.)
\<close>

fun has_slice :: "json \<Rightarrow> py_error + unit" where
  "has_slice (JStr s) = Inr ()"
| "has_slice (JList xs) = Inr ()"
| "has_slice _ = Inl TypeError"

text \<open>
  Line 152: \<^verbatim>\<open>[c.get("body", "").strip() for c in comments_data if c.get("body")]\<close>.
\<close>

fun comment_bodies :: "json list \<Rightarrow> py_error + unit" where
  "comment_bodies [] = Inr ()"
| "comment_bodies (c # cs) =
     bind_err (py_get c ''body'' JNull)
       (\<lambda>b. bind_err (if truthy b then has_strip b else Inr ())
          (\<lambda>_. comment_bodies cs))"

definition transform_issue :: "json \<Rightarrow> py_error + structured" where
  "transform_issue issue =
     bind_err (py_get issue ''fields'' (JObj [])) (\<lambda>fields.
     bind_err (py_get issue ''key'' (JStr [])) (\<lambda>key.
     bind_err (py_get2 fields ''project'' ''key'' (JStr [])) (\<lambda>project.
     bind_err (py_get fields ''summary'' (JStr [])) (\<lambda>summary.
     bind_err (py_get fields ''description'' JNull) (\<lambda>d.
     let description = (if truthy d then d else JStr []) in
     bind_err (py_get2 fields ''status'' ''name'' (JStr [])) (\<lambda>status.
     bind_err (py_get2 fields ''reporter'' ''displayName'' (JStr [])) (\<lambda>reporter.
     bind_err (py_get fields ''assignee'' JNull) (\<lambda>a.
     bind_err (if truthy a
               then py_get2 fields ''assignee'' ''displayName'' (JStr ''Unassigned'')
               else Inr (JStr ''Unassigned'')) (\<lambda>assignee.
     bind_err (py_get2 fields ''priority'' ''name'' (JStr [])) (\<lambda>priority.
     bind_err (py_get fields ''labels'' (JList [])) (\<lambda>labels.
     bind_err (py_get fields ''created'' (JStr [])) (\<lambda>created.
     bind_err (py_get fields ''updated'' (JStr [])) (\<lambda>updated.
     bind_err (py_get2 fields ''comment'' ''comments'' (JList [])) (\<lambda>comments_data.
     bind_err (py_iter comments_data) (\<lambda>cs.
     bind_err (comment_bodies cs) (\<lambda>_.
     bind_err (has_slice description) (\<lambda>_.
     bind_err (has_strip description) (\<lambda>_.
     Inr (Structured issue)))))))))))))))))))"

section \<open>Scraping one project\<close>

text \<open>
  Lines 221 and 222: the records of a page are transformed and appended one by one; an
  exception leaves the records appended so far in \<^verbatim>\<open>results\<close>.
\<close>

fun append_all :: "structured list \<Rightarrow> json list \<Rightarrow> structured list \<times> (py_error + unit)" where
  "append_all rs [] = (rs, Inr ())"
| "append_all rs (issue # rest) =
     (case transform_issue issue of
        Inl e \<Rightarrow> (rs, Inl e)
      | Inr r \<Rightarrow> append_all (rs @ [r]) rest)"

record run_state =
  results :: "structured list"
  files :: filesystem

text \<open>
  The body of the loop over the completed futures (lines 216 to 229) for the page at
  \<open>start_at\<close>, whose future ended with the given result (\<open>Inl\<close>: \<^verbatim>\<open>fetch_page\<close> raised).
  The handler of line 225 catches what the transformation and the save raise as well.
\<close>

definition handle_completed ::
  "string \<Rightarrow> run_state \<Rightarrow> int \<Rightarrow> py_error + int \<times> json \<Rightarrow> run_state" where
  "handle_completed project_key st start_at res =
     (case res of
        Inl e \<Rightarrow> st
      | Inr (_, issues) \<Rightarrow>
         if truthy issues then
           (case py_iter issues of
              Inl e \<Rightarrow> st
            | Inr xs \<Rightarrow>
               (case append_all (results st) xs of
                  (rs, Inl e) \<Rightarrow> st\<lparr>results := rs\<rparr>
                | (rs, Inr _) \<Rightarrow>
                   (case save_checkpoint (files st) project_key (start_at + MAX_RESULTS) of
                      Inl e \<Rightarrow> st\<lparr>results := rs\<rparr>
                    | Inr fs' \<Rightarrow> \<lparr>results = rs, files = fs'\<rparr>)))
         else st)"

text \<open>The loop, over the pages in the order their futures complete.\<close>

fun drain :: "network \<Rightarrow> string \<Rightarrow> run_state \<Rightarrow> int list \<Rightarrow> run_state" where
  "drain net project_key st [] = st"
| "drain net project_key st (start_at # rest) =
     drain net project_key
       (handle_completed project_key st start_at (fetch_page net project_key start_at)) rest"

text \<open>
  Lines 193 to 205: the total, the early return when it is zero, the checkpoint and
  the pages.
\<close>

datatype planned = No_issues | Pages "int list"

definition planning :: "network \<Rightarrow> filesystem \<Rightarrow> string \<Rightarrow> py_error + planned" where
  "planning net fs project_key =
     bind_err (get_total_issues net project_key) (\<lambda>total.
     if is_zero total then Inr No_issues
     else
       bind_err (snd (load_checkpoint fs project_key)) (\<lambda>start_checkpoint.
       bind_err (py_index start_checkpoint) (\<lambda>start.
       bind_err (py_index total) (\<lambda>stop.
       bind_err (plan stop start MAX_RESULTS) (\<lambda>pages. Inr (Pages pages))))))"

text \<open>
  Whether the loop body reaches \<^verbatim>\<open>save_checkpoint\<close> for a page: its fetch returned, the
  result is true as a condition, and every record of it was transformed.
\<close>

definition transformed :: "json \<Rightarrow> bool" where
  "transformed issue = (case transform_issue issue of Inl e \<Rightarrow> False | Inr r \<Rightarrow> True)"

definition result_saved :: "py_error + int \<times> json \<Rightarrow> bool" where
  "result_saved res =
     (case res of
        Inl e \<Rightarrow> False
      | Inr (_, issues) \<Rightarrow>
         truthy issues \<and>
         (case py_iter issues of Inl e \<Rightarrow> False | Inr xs \<Rightarrow> list_all transformed xs))"

definition page_saved :: "network \<Rightarrow> string \<Rightarrow> int \<Rightarrow> bool" where
  "page_saved net project_key start_at = result_saved (fetch_page net project_key start_at)"

text \<open>
  \<^verbatim>\<open>scrape_project\<close>: the result list and the checkpoint directory it leaves.
  \<open>as_completed\<close> gives the order in which the futures of the planned pages complete.
  The two output files hold the result list and are not modelled.
\<close>

definition scrape_project ::
  "network \<Rightarrow> (int list \<Rightarrow> int list) \<Rightarrow> filesystem \<Rightarrow> string
     \<Rightarrow> (py_error + structured list) \<times> filesystem" where
  "scrape_project net as_completed fs project_key =
     (case planning net fs project_key of
        Inl e \<Rightarrow> (Inl e, fs)
      | Inr No_issues \<Rightarrow> (Inr [], fs)
      | Inr (Pages pages) \<Rightarrow>
         (let st = drain net project_key \<lparr>results = [], files = fs\<rparr> (as_completed pages)
          in (Inr (results st), files st)))"

section \<open>Sample services\<close>

text \<open>
  Remote services for the sample runs: one that fails in a different way at each
  attempt and then answers, one that answers 503 twice and then 404, one that always
  answers 500, one that always answers 404, and one that answers with an empty page.
\<close>

definition flaky :: "nat \<Rightarrow> outcome" where
  "flaky attempt =
     (if attempt = 1 then RequestException
      else if attempt = 2 then Response 503 Absent None
      else if attempt = 3 then Response 429 (Int_text 7) None
      else if attempt = 4 then Response 429 Absent None
      else Response 200 Absent (Some (JObj [(''total'', JInt 120)])))"

definition degrading :: network where
  "degrading url ps attempt =
     (if attempt < 3 then Response 503 Absent None else Response 404 Absent None)"

definition always_down :: network where
  "always_down url ps attempt = Response 500 Absent None"

definition not_found :: network where
  "not_found url ps attempt = Response 404 Absent None"

definition empty_page :: network where
  "empty_page url ps attempt =
     Response 200 Absent (Some (JObj [(''total'', JInt 120), (''issues'', JList [])]))"

text \<open>
  An issue that \<^verbatim>\<open>transform_issue\<close> accepts, one whose reporter is \<^verbatim>\<open>null\<close>, and a
  service with a total of 100 issues that answers every page request with a page of
  one issue.
\<close>

definition good_issue :: json where
  "good_issue = JObj [(''key'', JStr ''ACE-1''), (''fields'', JObj [(''summary'', JStr ''s'')])]"

definition bad_issue :: json where
  "bad_issue = JObj [(''key'', JStr ''ACE-2''),
                     (''fields'', JObj [(''summary'', JStr ''s''), (''reporter'', JNull)])]"

definition two_pages :: network where
  "two_pages url ps attempt =
     (case map_of ps ''startAt'' of
        None \<Rightarrow> Response 200 Absent (Some (JObj [(''total'', JInt 100)]))
      | Some v \<Rightarrow> Response 200 Absent (Some (JObj [(''issues'', JList [good_issue])])))"

text \<open>
  A service that answers 429 with an HTTP date in \<^verbatim>\<open>Retry-After\<close>, the other form the
  header may take.
\<close>

definition dated_limit :: network where
  "dated_limit url ps attempt = Response 429 Other_text None"

text \<open>
  The file system after the start of the program in the directory \<^verbatim>\<open>/work\<close>: lines 23
  and 24 have made \<^verbatim>\<open>output\<close> and \<^verbatim>\<open>checkpoints\<close>, and there are no files. And the same
  with a checkpoint file for ACE of the given content.
\<close>

definition fresh_disk :: filesystem where
  "fresh_disk =
     \<lparr>cwd = [''work''],
      is_dir = (\<lambda>place. place = [] \<or> place = [''work''] \<or> place = [''work'', ''output'']
                 \<or> place = [''work'', ''checkpoints'']),
      file_at = Map.empty\<rparr>"

definition disk_with :: "file_content \<Rightarrow> filesystem" where
  "disk_with c =
     fresh_disk\<lparr>file_at := [[''work'', ''checkpoints'', ''ACE_checkpoint.json''] \<mapsto> c]\<rparr>"

section \<open>Page planner: properties\<close>

lemma range_up_set:
  "0 < step \<Longrightarrow> set (range_up i stop step) = {x. i \<le> x \<and> x < stop \<and> step dvd (x - i)}"
proof (induction i stop step rule: range_up.induct)
  case (1 i stop step)
  show ?case
  proof (cases "i < stop")
    case False
    then show ?thesis by (auto simp: range_up.simps [of i stop step])
  next
    case True
    have a: "step dvd (x - (i + step)) \<longleftrightarrow> step dvd (x - i)" for x
    proof -
      have "x - (i + step) = (x - i) - step" by simp
      then show ?thesis by (simp only: dvd_diff_left_iff [OF dvd_refl])
    qed
    have b: "\<And>x. i < x \<Longrightarrow> step dvd (x - i) \<Longrightarrow> i + step \<le> x"
      using zdvd_imp_le [of step] by fastforce
    from True 1 have "set (range_up i stop step) =
        insert i {x. i + step \<le> x \<and> x < stop \<and> step dvd (x - (i + step))}"
      by (simp add: range_up.simps [of i stop step])
    also have "\<dots> = {x. i \<le> x \<and> x < stop \<and> step dvd (x - i)}"
      using True 1(2) b by (auto simp: a)
    finally show ?thesis .
  qed
qed

lemma range_up_length:
  "0 < step \<Longrightarrow> int (length (range_up i stop step)) = - ((- max 0 (stop - i)) div step)"
proof (induction i stop step rule: range_up.induct)
  case (1 i stop step)
  show ?case
  proof (cases "i < stop")
    case False
    then show ?thesis by (simp add: range_up.simps [of i stop step])
  next
    case True
    have "int (length (range_up i stop step)) = 1 + - ((- max 0 (stop - (i + step))) div step)"
      using True 1 by (simp add: range_up.simps [of i stop step])
    also have "\<dots> = - ((- max 0 (stop - i)) div step)"
    proof (cases "stop - (i + step) > 0")
      case True
      have "i + step - stop = (i - stop) + step" by simp
      then have "(i + step - stop) div step = (i - stop) div step + 1"
        using 1(2) by (simp only: div_add_self2)
      then show ?thesis using True \<open>i < stop\<close> by (simp add: max_def algebra_simps)
    next
      case False
      have "(i - stop) div step = -1"
        using False True 1(2) by (intro int_div_pos_eq [of _ _ _ "i - stop + step"]) auto
      then show ?thesis using False True by (simp add: max_def)
    qed
    finally show ?thesis .
  qed
qed

lemma range_up_sorted: "0 < step \<Longrightarrow> sorted_wrt (<) (range_up i stop step)"
proof (induction i stop step rule: range_up.induct)
  case (1 i stop step)
  show ?case
  proof (cases "i < stop")
    case False
    then show ?thesis by (simp add: range_up.simps [of i stop step])
  next
    case True
    then show ?thesis using 1 range_up_set [of step "i + step" stop]
      by (auto simp add: range_up.simps [of i stop step])
  qed
qed

lemma range_up_hd: "0 < step \<Longrightarrow> i < stop \<Longrightarrow> hd (range_up i stop step) = i"
  by (simp add: range_up.simps [of i stop step])

lemma range_up_empty: "stop \<le> i \<Longrightarrow> range_up i stop step = []"
  by (simp add: range_up.simps [of i stop step])

text \<open>
  Claim C3 (page-plan shape). For a total count and a resume offset that are not
  negative and a positive page size, the planner returns a list, it raises nothing,
  of exactly \<open>ceil(max(0, total_count - resume_offset) / page_size)\<close> offsets in strictly
  ascending order, and when the resume offset is below the total count the first
  offset is the resume offset.
\<close>

theorem plan_shape:
  assumes "0 \<le> total_count" and "0 \<le> resume_offset" and "0 < page_size"
  shows "\<exists>pages. plan total_count resume_offset page_size = Inr pages
    \<and> int (length pages)
        = \<lceil>real_of_int (max 0 (total_count - resume_offset)) / real_of_int page_size\<rceil>
    \<and> sorted_wrt (<) pages
    \<and> (resume_offset < total_count \<longrightarrow> hd pages = resume_offset)"
proof -
  let ?pages = "range_up resume_offset total_count page_size"
  have "plan total_count resume_offset page_size = Inr ?pages"
    using assms(3) by (simp add: plan_def py_range_def)
  moreover have "int (length ?pages)
      = \<lceil>real_of_int (max 0 (total_count - resume_offset)) / real_of_int page_size\<rceil>"
    using assms(3) by (simp only: range_up_length ceiling_divide_eq_div)
  moreover have "sorted_wrt (<) ?pages"
    using assms(3) by (rule range_up_sorted)
  moreover have "resume_offset < total_count \<longrightarrow> hd ?pages = resume_offset"
    using assms(3) by (simp add: range_up_hd)
  ultimately show ?thesis by blast
qed

text \<open>At a total of 120 from offset 0 by pages of 50: three offsets, the first one 0.\<close>

theorem plan_shape_witness:
  "\<exists>pages. plan 120 0 50 = Inr pages \<and> int (length pages) = 3
     \<and> sorted_wrt (<) pages \<and> hd pages = 0"
  using plan_shape [of 120 0 50] by simp

text \<open>
  Claim C4 (page-plan membership), as amended. The claim reads the output as the
  multiples of the page size in \<open>[resume_offset, total_count)\<close> for every resume offset.
  The planner steps from the resume offset: for a positive page size its output is
  exactly the offsets \<open>resume_offset + k * page_size\<close> of that interval, in ascending
  order; they are the multiples of the page size in the interval when the resume offset
  is such a multiple; and the output is empty when the resume offset is not below the
  total count.
\<close>

theorem plan_members:
  assumes "0 < page_size"
  shows "\<exists>pages. plan total_count resume_offset page_size = Inr pages
    \<and> set pages = {x. resume_offset \<le> x \<and> x < total_count \<and> page_size dvd (x - resume_offset)}
    \<and> sorted_wrt (<) pages
    \<and> (page_size dvd resume_offset \<longrightarrow>
         set pages = {x. resume_offset \<le> x \<and> x < total_count \<and> page_size dvd x})
    \<and> (total_count \<le> resume_offset \<longrightarrow> pages = [])"
proof -
  let ?pages = "range_up resume_offset total_count page_size"
  have "plan total_count resume_offset page_size = Inr ?pages"
    using assms by (simp add: plan_def py_range_def)
  moreover have s: "set ?pages
      = {x. resume_offset \<le> x \<and> x < total_count \<and> page_size dvd (x - resume_offset)}"
    using assms by (rule range_up_set)
  moreover have "sorted_wrt (<) ?pages"
    using assms by (rule range_up_sorted)
  moreover have "page_size dvd resume_offset \<longrightarrow>
      set ?pages = {x. resume_offset \<le> x \<and> x < total_count \<and> page_size dvd x}"
    by (auto simp: s dvd_diff_left_iff)
  moreover have "total_count \<le> resume_offset \<longrightarrow> ?pages = []"
    by (simp add: range_up_empty)
  ultimately show ?thesis by blast
qed

text \<open>From offset 50 to a total of 120 by pages of 50.\<close>

theorem plan_members_witness:
  "\<exists>pages. plan 120 50 50 = Inr pages
     \<and> set pages = {x. 50 \<le> x \<and> x < 120 \<and> (50::int) dvd x} \<and> sorted_wrt (<) pages"
  using plan_members [of 50 120 50] by auto

text \<open>
  Claim C4 as stated fails at a resume offset that is no multiple of the page size:
  from offset 7 the pages are 7, 57 and 107; 7 is planned and is no multiple of 50, and
  50 is a multiple of 50 in \<open>[7, 120)\<close> that is not planned.
\<close>

theorem plan_multiples_counterexample:
  "plan 120 7 50 = Inr [7, 57, 107] \<and> \<not> 50 dvd (7::int)
     \<and> (50::int) dvd 50 \<and> (7::int) \<le> 50 \<and> (50::int) < 120 \<and> (50::int) \<notin> set [7, 57, 107]"
  by (simp add: plan_def py_range_def range_up.simps)

section \<open>Checkpoint store: properties\<close>

lemma split_sep_plain: "CHR ''/'' \<notin> set s \<Longrightarrow> split_sep s = [s]"
  by (induction s) auto

lemma checkpoint_file_plain:
  assumes "CHR ''/'' \<notin> set k"
  shows "checkpoint_file k
    = \<lparr>absolute = False, parts = [''checkpoints'', k @ ''_checkpoint.json'']\<rparr>"
proof -
  have dir: "CHECKPOINT_DIR = \<lparr>absolute = False, parts = [''checkpoints'']\<rparr>"
    by (simp add: CHECKPOINT_DIR_def pure_path_def)
  have "CHR ''/'' \<notin> set (k @ ''_checkpoint.json'')" using assms by simp
  then have split: "split_sep (k @ ''_checkpoint.json'') = [k @ ''_checkpoint.json'']"
    by (rule split_sep_plain)
  have rel: "\<not> (case k @ ''_checkpoint.json'' of [] \<Rightarrow> False | c # cs \<Rightarrow> c = CHR ''/'')"
    using assms by (cases k) auto
  have dot: "k @ ''_checkpoint.json'' \<noteq> ''.''"
    by (cases k) auto
  show ?thesis
    using rel dot by (simp add: checkpoint_file_def joinpath_def dir pure_path_def split Let_def)
qed

lemma locate_plain:
  assumes "usable fs k"
  shows "os_locate fs (checkpoint_file k) = Inr (checkpoint_place fs k)"
proof -
  have k: "CHR ''/'' \<notin> set k" "CHR 0x00 \<notin> set k" "length k \<le> 239"
    and d: "is_dir fs (cwd fs)" "is_dir fs (cwd fs @ [''checkpoints''])"
    using assms by (simp_all add: usable_def plain_key_def)
  have dots: "k @ ''_checkpoint.json'' \<noteq> ''..''"
    by (cases k) auto
  show ?thesis
    using k d dots
    by (simp add: checkpoint_file_plain os_locate_def path_text_def checkpoint_place_def)
qed

lemma os_locate_file_at [simp]: "os_locate (fs\<lparr>file_at := m\<rparr>) p = os_locate fs p"
  by (simp add: os_locate_def)

lemma writable_file_at [simp]: "writable (fs\<lparr>file_at := m\<rparr>) k = writable fs k"
  by (simp add: writable_def split: sum.splits)

lemma usable_file_at [simp]: "usable (fs\<lparr>file_at := m\<rparr>) k = usable fs k"
  by (simp add: usable_def checkpoint_place_def)

lemma checkpoint_place_file_at [simp]:
  "checkpoint_place (fs\<lparr>file_at := m\<rparr>) k = checkpoint_place fs k"
  by (simp add: checkpoint_place_def)

lemma save_result:
  "save_checkpoint fs k v = Inr fs' \<Longrightarrow>
     \<exists>place. os_locate fs (checkpoint_file k) = Inr place
       \<and> fs' = fs\<lparr>file_at := (file_at fs)(place \<mapsto> Json (JObj [(''last_startAt'', JInt v)]))\<rparr>"
  by (auto simp: save_checkpoint_def open_write_def bind_err_def split: sum.splits if_splits)

lemma save_usable:
  "usable fs k \<Longrightarrow>
     save_checkpoint fs k v
       = Inr (fs\<lparr>file_at := (file_at fs)(checkpoint_place fs k
                                \<mapsto> Json (JObj [(''last_startAt'', JInt v)]))\<rparr>)"
  by (simp add: save_checkpoint_def open_write_def bind_err_def locate_plain usable_def)

lemma load_usable:
  "usable fs k \<Longrightarrow>
     load_checkpoint fs k
       = (case file_at fs (checkpoint_place fs k) of
            None \<Rightarrow> ([], Inr (JInt 0))
          | Some c \<Rightarrow>
             (case bind_err (json_load c) (\<lambda>d. py_get d ''last_startAt'' (JInt 0)) of
                Inl JSONDecodeError \<Rightarrow> ([Print (Corrupted_checkpoint k)], Inr (JInt 0))
              | r \<Rightarrow> ([], r)))"
  by (auto simp: load_checkpoint_def path_exists_def open_read_def locate_plain usable_def
      bind_err_def Let_def split: option.splits)

lemma load_after_save:
  "usable fs k \<Longrightarrow> save_checkpoint fs k v = Inr fs' \<Longrightarrow> load_checkpoint fs' k = ([], Inr (JInt v))"
  by (auto simp: save_usable load_usable json_load_def bind_err_def)

lemma load_cong:
  assumes "cwd fs' = cwd fs" and "is_dir fs' = is_dir fs"
    and "\<And>place. os_locate fs (checkpoint_file k) = Inr place \<Longrightarrow> file_at fs' place = file_at fs place"
  shows "load_checkpoint fs' k = load_checkpoint fs k"
proof -
  have loc: "os_locate fs' (checkpoint_file k) = os_locate fs (checkpoint_file k)"
    using assms(1,2) by (simp add: os_locate_def)
  have ex: "path_exists fs' (checkpoint_file k) = path_exists fs (checkpoint_file k)"
  proof (cases "os_locate fs (checkpoint_file k)")
    case (Inl e)
    then show ?thesis using loc by (simp add: path_exists_def)
  next
    case (Inr place)
    then show ?thesis using loc assms(2) assms(3) [OF Inr] by (simp add: path_exists_def)
  qed
  have rd: "open_read fs' (checkpoint_file k) = open_read fs (checkpoint_file k)"
  proof (cases "os_locate fs (checkpoint_file k)")
    case (Inl e)
    then show ?thesis using loc by (simp add: open_read_def bind_err_def)
  next
    case (Inr place)
    then show ?thesis using loc assms(2) assms(3) [OF Inr]
      by (simp add: open_read_def bind_err_def)
  qed
  show ?thesis unfolding load_checkpoint_def Let_def ex rd by (rule refl)
qed

lemma try_save_frame [simp]:
  "cwd (try_save fs k v) = cwd fs" "is_dir (try_save fs k v) = is_dir fs"
  by (auto simp: try_save_def dest!: save_result split: sum.splits)

lemma os_locate_try_save [simp]: "os_locate (try_save fs k v) p = os_locate fs p"
  by (simp add: os_locate_def)

lemma usable_try_save [simp]: "usable (try_save fs k v) c = usable fs c"
  by (simp add: usable_def checkpoint_place_def)

lemma writable_try_save [simp]: "writable (try_save fs k v) c = writable fs c"
  by (simp add: writable_def split: sum.splits)

lemma usable_writable: "usable fs k \<Longrightarrow> writable fs k"
  by (simp add: writable_def locate_plain) (simp add: usable_def)


lemma load_try_save_same:
  assumes "writable fs c"
  shows "load_checkpoint (try_save fs c v) c = ([], Inr (JInt v))"
proof -
  from assms obtain place where
    place: "os_locate fs (checkpoint_file c) = Inr place" and nd: "\<not> is_dir fs place"
    by (auto simp: writable_def split: sum.splits)
  let ?fs' = "fs\<lparr>file_at := (file_at fs)(place \<mapsto> Json (JObj [(''last_startAt'', JInt v)]))\<rparr>"
  have "try_save fs c v = ?fs'"
    using place nd by (simp add: try_save_def save_checkpoint_def open_write_def bind_err_def)
  moreover have "load_checkpoint ?fs' c = ([], Inr (JInt v))"
    using place nd
    by (simp add: load_checkpoint_def path_exists_def open_read_def json_load_def bind_err_def)
  ultimately show ?thesis by simp
qed

lemma load_try_save_other:
  assumes "os_locate fs (checkpoint_file k) \<noteq> os_locate fs (checkpoint_file c)"
  shows "load_checkpoint (try_save fs k v) c = load_checkpoint fs c"
proof (cases "save_checkpoint fs k v")
  case (Inl e)
  then show ?thesis by (simp add: try_save_def)
next
  case (Inr fs')
  from save_result [OF this] obtain place where
    place: "os_locate fs (checkpoint_file k) = Inr place"
    and fs': "fs' = fs\<lparr>file_at := (file_at fs)(place \<mapsto> Json (JObj [(''last_startAt'', JInt v)]))\<rparr>"
    by blast
  have "load_checkpoint fs' c = load_checkpoint fs c"
  proof (rule load_cong)
    fix q assume "os_locate fs (checkpoint_file c) = Inr q"
    then have "q \<noteq> place" using assms place by auto
    then show "file_at fs' q = file_at fs q" by (simp add: fs')
  qed (simp_all add: fs')
  then show ?thesis using Inr by (simp add: try_save_def)
qed


lemma save_all_load:
  assumes "writable fs c"
    and "\<forall>call \<in> set calls. fst call = c
           \<or> os_locate fs (checkpoint_file (fst call)) \<noteq> os_locate fs (checkpoint_file c)"
  shows "snd (load_checkpoint (save_all fs calls) c) =
     (case offsets_for c calls of
        [] \<Rightarrow> snd (load_checkpoint fs c)
      | x # xs \<Rightarrow> Inr (JInt (last (x # xs))))"
  using assms
proof (induction calls arbitrary: fs)
  case Nil
  show ?case by (simp add: offsets_for_def)
next
  case (Cons call calls)
  obtain k v where call: "call = (k, v)" by (cases call)
  have u: "writable (try_save fs k v) c" using Cons.prems(1) by simp
  have rest: "\<forall>call \<in> set calls. fst call = c
      \<or> os_locate (try_save fs k v) (checkpoint_file (fst call))
          \<noteq> os_locate (try_save fs k v) (checkpoint_file c)"
    using Cons.prems(2) by simp
  note IH = Cons.IH [OF u rest]
  show ?case
  proof (cases "k = c")
    case True
    then show ?thesis using IH call Cons.prems(1)
      by (simp add: offsets_for_def load_try_save_same split: list.splits)
  next
    case False
    then have "os_locate fs (checkpoint_file k) \<noteq> os_locate fs (checkpoint_file c)"
      using Cons.prems(2) call by auto
    then have "load_checkpoint (try_save fs k v) c = load_checkpoint fs c"
      by (rule load_try_save_other)
    then show ?thesis using IH call False
      by (simp add: offsets_for_def split: list.splits)
  qed
qed

lemma usable_fresh_disk: "plain_key k \<Longrightarrow> usable fresh_disk k"
  by (simp add: usable_def fresh_disk_def checkpoint_place_def)

lemma usable_disk_with: "plain_key k \<Longrightarrow> usable (disk_with c) k"
  by (simp add: usable_def disk_with_def fresh_disk_def checkpoint_place_def)

lemma plain_ACE: "plain_key ''ACE''" and plain_AMQCPP: "plain_key ''AMQCPP''"
  by (simp_all add: plain_key_def)








text \<open>
  What \<^verbatim>\<open>load_checkpoint\<close> returns where it returns: no file, and a file that is not
  JSON. On a file that is no text it raises.
\<close>

lemma load_fresh: "plain_key k \<Longrightarrow> load_checkpoint fresh_disk k = ([], Inr (JInt 0))"
  by (simp add: load_usable usable_fresh_disk) (simp add: fresh_disk_def)

lemma load_not_json:
  "load_checkpoint (disk_with NotJson) ''ACE'' = ([Print (Corrupted_checkpoint ''ACE'')], Inr (JInt 0))"
  by (simp add: load_usable usable_disk_with plain_ACE)
    (simp add: disk_with_def fresh_disk_def checkpoint_place_def json_load_def bind_err_def)

lemma load_not_text: "load_checkpoint (disk_with NotText) ''ACE'' = ([], Inl UnicodeDecodeError)"
  by (simp add: load_usable usable_disk_with plain_ACE)
    (simp add: disk_with_def fresh_disk_def checkpoint_place_def json_load_def bind_err_def)

text \<open>
  Claim C8 (checkpoint load is total and non-fatal) fails on a checkpoint file that
  holds valid JSON other than an object. \<^verbatim>\<open>json.load\<close> returns a list, \<^verbatim>\<open>.get\<close> raises
  \<^verbatim>\<open>AttributeError\<close>, and the handler catches \<^verbatim>\<open>json.JSONDecodeError\<close> only: no warning
  is printed, nothing is returned.
\<close>

theorem load_checkpoint_raises:
  "load_checkpoint (disk_with (Json (JList []))) ''ACE'' = ([], Inl AttributeError)"
  by (simp add: load_usable usable_disk_with plain_ACE)
    (simp add: disk_with_def fresh_disk_def checkpoint_place_def json_load_def bind_err_def)

section \<open>Resilient call executor: properties\<close>

lemma attempts: "[1..<MAX_RETRIES + 1] = [1, 2, 3, 4, 5]"
  by (simp add: MAX_RETRIES_def upt_rec)

lemma gets_append [simp]: "gets (xs @ ys) = gets xs @ gets ys"
  by (induction xs rule: gets.induct) simp_all

lemma sleeps_append [simp]: "sleeps (xs @ ys) = sleeps xs @ sleeps ys"
  by (induction xs rule: sleeps.induct) simp_all

lemma gets_attempt_once [simp]: "gets (fst (attempt_once i out)) = [i]"
  by (cases out) (simp_all add: Let_def split: option.splits retry_after_header.splits)

lemma retry_loop_Continue:
  "snd (attempt_once a (net a)) = Continue \<Longrightarrow>
     retry_loop net (a # rest)
       = (fst (attempt_once a (net a)) @ fst (retry_loop net rest), snd (retry_loop net rest))"
  by (cases "attempt_once a (net a)") (simp split: prod.splits)

lemma retry_loop_prefix:
  "\<forall>i \<in> set pre. snd (attempt_once i (net i)) = Continue \<Longrightarrow>
     retry_loop net (pre @ xs)
       = (concat (map (\<lambda>i. fst (attempt_once i (net i))) pre) @ fst (retry_loop net xs),
          snd (retry_loop net xs))"
  by (induction pre) (simp_all add: retry_loop_Continue del: retry_loop.simps(2))

lemma gets_concat_attempts [simp]:
  "gets (concat (map (\<lambda>i. fst (attempt_once i (net i))) pre)) = pre"
  by (induction pre) simp_all

lemma retry_loop_fail_fast:
  "net a = Response st h b \<Longrightarrow> st \<noteq> 200 \<Longrightarrow> st \<noteq> 429 \<Longrightarrow> \<not> (500 \<le> st \<and> st < 600) \<Longrightarrow>
     retry_loop net (a # rest) = ([Get a, Print (Unexpected_response st)], Inr JNull)"
  by auto

lemma attempts_from:
  assumes "1 \<le> a" and "a \<le> MAX_RETRIES"
  shows "[1..<MAX_RETRIES + 1] = [1..<a] @ a # [a + 1..<MAX_RETRIES + 1]"
proof -
  have "[1..<MAX_RETRIES + 1] = [1..<a + (MAX_RETRIES + 1 - a)]"
    using assms(2) by simp
  also have "\<dots> = [1..<a] @ [a..<a + (MAX_RETRIES + 1 - a)]"
    using assms(1) by (rule upt_add_eq_append)
  also have "[a..<a + (MAX_RETRIES + 1 - a)] = a # [a + 1..<MAX_RETRIES + 1]"
    using assms(2) by (simp add: upt_conv_Cons)
  finally show ?thesis .
qed

text \<open>
  The run of \<^verbatim>\<open>safe_request\<close> up to an attempt that is reached: the traces of the
  attempts before it, and then the loop from that attempt on.
\<close>

lemma safe_request_reaches:
  assumes "1 \<le> a" and "a \<le> MAX_RETRIES"
    and "\<forall>i. 1 \<le> i \<and> i < a \<longrightarrow> snd (attempt_once i (net url ps i)) = Continue"
  shows "safe_request net url ps
    = (concat (map (\<lambda>i. fst (attempt_once i (net url ps i))) [1..<a])
         @ fst (retry_loop (net url ps) (a # [a + 1..<MAX_RETRIES + 1])),
       snd (retry_loop (net url ps) (a # [a + 1..<MAX_RETRIES + 1])))"
proof -
  have pre: "\<forall>i \<in> set [1..<a]. snd (attempt_once i (net url ps i)) = Continue"
    using assms(3) by simp
  show ?thesis
    unfolding safe_request_def attempts_from [OF assms(1,2)] retry_loop_prefix [OF pre] ..
qed

text \<open>
  The sleeps of the executor where it sleeps. At attempt number \<open>a\<close> of
  \<^verbatim>\<open>safe_request\<close>, reached because the attempts before it were retried: after a
  transport failure and after a 5xx response the sleep is \<open>min(5 * a, 60)\<close> seconds;
  after a 429 response it is the number of seconds of \<^verbatim>\<open>Retry-After\<close> when that is a
  number from 0 to \<open>MAX_SLEEP\<close>, and 60 seconds when the header is absent. The loop then
  goes on with the next attempt.
\<close>

lemma backoff_bound:
  assumes "1 \<le> a" and "a \<le> MAX_RETRIES"
    and "\<forall>i. 1 \<le> i \<and> i < a \<longrightarrow> snd (attempt_once i (net url ps i)) = Continue"
    and "net url ps a = RequestException \<and> w = min (5 * int a) 60
       \<or> (\<exists>st h b. net url ps a = Response st h b \<and> 500 \<le> st \<and> st < 600)
            \<and> w = min (5 * int a) 60
       \<or> (\<exists>b. net url ps a = Response 429 (Int_text w) b) \<and> 0 \<le> w \<and> w \<le> MAX_SLEEP
       \<or> (\<exists>b. net url ps a = Response 429 Absent b) \<and> w = 60"
  shows "sleeps (fst (safe_request net url ps))
    = sleeps (concat (map (\<lambda>i. fst (attempt_once i (net url ps i))) [1..<a])) @ [w]
        @ sleeps (fst (retry_loop (net url ps) [a + 1..<MAX_RETRIES + 1]))"
proof -
  have here: "sleeps (fst (attempt_once a (net url ps a))) = [w]
      \<and> snd (attempt_once a (net url ps a)) = Continue"
    using assms(4) by (auto simp: RETRY_BACKOFF_def MAX_SLEEP_def Let_def)
  then have "retry_loop (net url ps) (a # [a + 1..<MAX_RETRIES + 1])
      = (fst (attempt_once a (net url ps a))
           @ fst (retry_loop (net url ps) [a + 1..<MAX_RETRIES + 1]),
         snd (retry_loop (net url ps) [a + 1..<MAX_RETRIES + 1]))"
    by (simp add: retry_loop_Continue del: retry_loop.simps)
  then show ?thesis
    unfolding safe_request_reaches [where net = net and url = url and ps = ps, OF assms(1-3)]
    using here by simp
qed

text \<open>
  Claim C6 (backoff bound) fails on the code where the 429 response carries its
  \<^verbatim>\<open>Retry-After\<close> as an HTTP date: \<^verbatim>\<open>int\<close> raises \<^verbatim>\<open>ValueError\<close> on line 51, line 62 catches
  \<^verbatim>\<open>RequestException\<close> only, and \<^verbatim>\<open>safe_request\<close> raises after its first GET without a
  sleep and without the retry its docstring promises for a 429.
\<close>

theorem retry_after_date_raises:
  "safe_request dated_limit BASE_URL (total_params ''ACE'') = ([Get 1], Inl ValueError)"
  unfolding safe_request_def attempts by (simp add: dated_limit_def)

text \<open>
  Claim C7 (fail fast on permanent errors). When the attempts before attempt \<open>a\<close> were
  retried and attempt \<open>a\<close> receives a status that is not 200, not 429 and not in the 5xx
  range, the executor returns \<^verbatim>\<open>None\<close>, the GETs it made are those of the attempts 1 to
  \<open>a\<close> and no more, and it does not sleep after the last one.
\<close>

theorem fail_fast:
  assumes "1 \<le> a" and "a \<le> MAX_RETRIES"
    and "\<forall>i. 1 \<le> i \<and> i < a \<longrightarrow> snd (attempt_once i (net url ps i)) = Continue"
    and "net url ps a = Response st h b"
    and "st \<noteq> 200" and "st \<noteq> 429" and "\<not> (500 \<le> st \<and> st < 600)"
  shows "snd (safe_request net url ps) = Inr JNull
    \<and> gets (fst (safe_request net url ps)) = [1..<a + 1]
    \<and> sleeps (fst (safe_request net url ps))
        = sleeps (concat (map (\<lambda>i. fst (attempt_once i (net url ps i))) [1..<a]))"
proof -
  have split: "[1..<MAX_RETRIES + 1] = [1..<a] @ a # [a + 1..<MAX_RETRIES + 1]"
  proof -
    have "[1..<MAX_RETRIES + 1] = [1..<a + (MAX_RETRIES + 1 - a)]"
      using assms(2) by simp
    also have "\<dots> = [1..<a] @ [a..<a + (MAX_RETRIES + 1 - a)]"
      using assms(1) by (rule upt_add_eq_append)
    also have "[a..<a + (MAX_RETRIES + 1 - a)] = a # [a + 1..<MAX_RETRIES + 1]"
      using assms(2) by (simp add: upt_conv_Cons)
    finally show ?thesis .
  qed
  have last: "retry_loop (net url ps) (a # [a + 1..<MAX_RETRIES + 1])
      = ([Get a, Print (Unexpected_response st)], Inr JNull)"
    using assms(4-7) by (rule retry_loop_fail_fast)
  have pre: "\<forall>i \<in> set [1..<a]. snd (attempt_once i (net url ps i)) = Continue"
    using assms(3) by simp
  have run: "safe_request net url ps
      = (concat (map (\<lambda>i. fst (attempt_once i (net url ps i))) [1..<a])
           @ [Get a, Print (Unexpected_response st)], Inr JNull)"
    unfolding safe_request_def split retry_loop_prefix [OF pre] last by simp
  show ?thesis using assms(1) by (simp add: run)
qed

text \<open>Two 503 responses and then a 404: three GETs, two sleeps.\<close>

theorem fail_fast_witness:
  "snd (safe_request degrading BASE_URL (total_params ''ACE'')) = Inr JNull
     \<and> gets (fst (safe_request degrading BASE_URL (total_params ''ACE''))) = [1, 2, 3]
     \<and> sleeps (fst (safe_request degrading BASE_URL (total_params ''ACE''))) = [5, 10]"
proof -
  let ?ps = "total_params ''ACE''"
  have "snd (safe_request degrading BASE_URL ?ps) = Inr JNull
      \<and> gets (fst (safe_request degrading BASE_URL ?ps)) = [1..<3 + 1]
      \<and> sleeps (fst (safe_request degrading BASE_URL ?ps))
          = sleeps (concat (map (\<lambda>i. fst (attempt_once i (degrading BASE_URL ?ps i))) [1..<3]))"
    by (rule fail_fast [where st = 404 and h = Absent and b = None])
      (simp_all add: degrading_def MAX_RETRIES_def Let_def)
  then show ?thesis
    by (simp add: degrading_def RETRY_BACKOFF_def upt_rec Let_def)
qed

text \<open>
  Claim C9 (a failed page is indistinguishable from an empty page). When the resilient
  call returns \<^verbatim>\<open>None\<close>, \<^verbatim>\<open>fetch_page\<close> returns the requested start offset with an empty
  list, which is what it returns for a response whose \<^verbatim>\<open>issues\<close> list is empty; the
  scheduler's loop body leaves its state as it is on that value.
\<close>

theorem failed_page_as_empty_page:
  "(snd (safe_request net BASE_URL (page_params project_key start_at)) = Inr JNull \<longrightarrow>
      fetch_page net project_key start_at = Inr (start_at, JList []))
   \<and> (snd (safe_request net BASE_URL (page_params project_key start_at)) = Inr (JObj kvs)
        \<and> kvs \<noteq> [] \<and> map_of kvs ''issues'' = Some (JList []) \<longrightarrow>
      fetch_page net project_key start_at = Inr (start_at, JList []))
   \<and> handle_completed project_key st start_at (Inr (start_at, JList [])) = st"
  by (simp add: fetch_page_def bind_err_def handle_completed_def)

text \<open>Retries used up, a 404, and an empty page of results.\<close>

theorem failed_page_as_empty_page_witness:
  "fetch_page always_down ''ACE'' 50 = Inr (50, JList [])
     \<and> fetch_page not_found ''ACE'' 50 = Inr (50, JList [])
     \<and> fetch_page empty_page ''ACE'' 50 = Inr (50, JList [])"
proof -
  let ?ps = "page_params ''ACE'' 50"
  have down: "snd (safe_request always_down BASE_URL ?ps) = Inr JNull"
    unfolding safe_request_def attempts by (simp add: always_down_def Let_def)
  have gone: "snd (safe_request not_found BASE_URL ?ps) = Inr JNull"
    unfolding safe_request_def attempts by (simp add: not_found_def)
  have none: "snd (safe_request empty_page BASE_URL ?ps)
      = Inr (JObj [(''total'', JInt 120), (''issues'', JList [])])"
    unfolding safe_request_def attempts by (simp add: empty_page_def)
  from down have "fetch_page always_down ''ACE'' 50 = Inr (50, JList [])"
    using failed_page_as_empty_page [where net = always_down] by blast
  moreover from gone have "fetch_page not_found ''ACE'' 50 = Inr (50, JList [])"
    using failed_page_as_empty_page [where net = not_found] by blast
  moreover from none have "fetch_page empty_page ''ACE'' 50 = Inr (50, JList [])"
    using failed_page_as_empty_page [where net = empty_page and project_key = "''ACE''"
        and start_at = 50 and kvs = "[(''total'', JInt 120), (''issues'', JList [])]"]
    by simp
  ultimately show ?thesis by simp
qed

text \<open>A run with a transport failure, a 503, a 429 with and a 429 without the header.\<close>

lemma flaky_run:
  "safe_request (\<lambda>url ps. flaky) BASE_URL (total_params ''ACE'')
     = ([Get 1, Print (Network_error 5 1), Sleep 5,
         Get 2, Print (Server_error 503 10 2), Sleep 10,
         Get 3, Print (Rate_limit 7), Sleep 7,
         Get 4, Print (Rate_limit 60), Sleep 60,
         Get 5], Inr (JObj [(''total'', JInt 120)]))"
  unfolding safe_request_def attempts
  by (simp add: flaky_def RETRY_BACKOFF_def MAX_SLEEP_def)

section \<open>Scheduler and driver: properties\<close>

lemma transform_good: "transform_issue good_issue = Inr (Structured good_issue)"
  by (simp add: good_issue_def transform_issue_def bind_err_def py_get2_def)

lemma transform_bad: "transform_issue bad_issue = Inl AttributeError"
  by (simp add: bad_issue_def transform_issue_def bind_err_def py_get2_def)

lemma transformed_iff: "transformed x \<longleftrightarrow> (\<exists>r. transform_issue x = Inr r)"
  by (cases "transform_issue x") (simp_all add: transformed_def)

lemma not_transformed_iff: "\<not> transformed x \<longleftrightarrow> (\<exists>e. transform_issue x = Inl e)"
  by (cases "transform_issue x") (simp_all add: transformed_def)

lemma append_all_ok:
  "list_all transformed xs \<Longrightarrow> \<exists>rs'. append_all rs xs = (rs', Inr ())"
  by (induction xs arbitrary: rs) (auto simp: transformed_def split: sum.splits)

lemma append_all_fails:
  "\<not> list_all transformed xs \<Longrightarrow> \<exists>rs' e. append_all rs xs = (rs', Inl e)"
  by (induction xs arbitrary: rs) (auto simp: transformed_def split: sum.splits)

lemma handle_completed_files:
  "files (handle_completed k st start_at res)
     = (if result_saved res then try_save (files st) k (start_at + MAX_RESULTS)
        else files st)"
proof (cases res)
  case (Inl e)
  then show ?thesis by (simp add: handle_completed_def result_saved_def)
next
  case (Inr p)
  obtain s' issues where p: "p = (s', issues)" by (cases p)
  show ?thesis
  proof (cases "truthy issues")
    case False
    then show ?thesis using Inr p by (simp add: handle_completed_def result_saved_def)
  next
    case True
    show ?thesis
    proof (cases "py_iter issues")
      case (Inl e)
      then show ?thesis using Inr p True by (simp add: handle_completed_def result_saved_def)
    next
      case iter: (Inr xs)
      show ?thesis
      proof (cases "list_all transformed xs")
        case True
        from append_all_ok [OF this] obtain rs' where "append_all (results st) xs = (rs', Inr ())"
          by blast
        then show ?thesis using Inr p \<open>truthy issues\<close> iter True
          by (simp add: handle_completed_def result_saved_def try_save_def split: sum.splits)
      next
        case False
        from append_all_fails [OF this] obtain rs' e where "append_all (results st) xs = (rs', Inl e)"
          by blast
        then show ?thesis using Inr p \<open>truthy issues\<close> iter False
          by (simp add: handle_completed_def result_saved_def)
      qed
    qed
  qed
qed

text \<open>
  Claim C5 (checkpoint-advance condition) fails on the code for a page whose result
  is not empty and holds a record with a \<^verbatim>\<open>null\<close> reporter. Line 141 calls \<^verbatim>\<open>.get\<close> on
  \<^verbatim>\<open>None\<close> (the lines 139 and 143 guard the description and the assignee against it),
  \<^verbatim>\<open>transform_issue\<close> raises \<^verbatim>\<open>AttributeError\<close>, the handler of line 225 catches it, and
  the save of line 224 is skipped: the state is as before, or holds the records that
  came before the bad one, and no checkpoint is written. The same page of good records
  is saved at \<open>start_at + 50\<close>.
\<close>

theorem nonempty_page_not_saved:
  "truthy (JList [bad_issue])
   \<and> transform_issue bad_issue = Inl AttributeError
   \<and> handle_completed ''ACE'' \<lparr>results = [], files = fresh_disk\<rparr> 0 (Inr (0, JList [bad_issue]))
       = \<lparr>results = [], files = fresh_disk\<rparr>
   \<and> handle_completed ''ACE'' \<lparr>results = [], files = fresh_disk\<rparr> 0
         (Inr (0, JList [good_issue, bad_issue]))
       = \<lparr>results = [Structured good_issue], files = fresh_disk\<rparr>
   \<and> snd (load_checkpoint
            (files (handle_completed ''ACE'' \<lparr>results = [], files = fresh_disk\<rparr> 0
                      (Inr (0, JList [good_issue, good_issue])))) ''ACE'')
       = Inr (JInt 50)"
proof -
  have w: "writable fresh_disk ''ACE''"
    by (simp add: usable_writable usable_fresh_disk plain_key_def)
  have "result_saved (Inr (0, JList [good_issue, good_issue]))"
    by (simp add: result_saved_def transformed_def transform_good)
  then have "files (handle_completed ''ACE'' \<lparr>results = [], files = fresh_disk\<rparr> 0
        (Inr (0, JList [good_issue, good_issue])))
      = try_save fresh_disk ''ACE'' 50"
    by (simp add: handle_completed_files MAX_RESULTS_def)
  then show ?thesis
    using w by (simp add: handle_completed_def transform_good transform_bad load_try_save_same)
qed

lemma range_up_Nil_iff: "0 < step \<Longrightarrow> range_up i stop step = [] \<longleftrightarrow> stop \<le> i"
  by (simp add: range_up.simps [of i stop step])

lemma strictly_sorted_le_last:
  assumes "sorted_wrt (<) xs" and "x \<in> set xs"
  shows "x \<le> last (xs :: int list)"
  using assms
proof (induction xs)
  case Nil
  then show ?case by simp
next
  case (Cons a xs)
  show ?case
  proof (cases "xs = []")
    case True
    then show ?thesis using Cons.prems by simp
  next
    case False
    then have l: "last xs \<in> set xs" by simp
    show ?thesis
    proof (cases "x = a")
      case True
      then have "x < last xs" using Cons.prems(1) l by simp
      then show ?thesis using False by simp
    next
      case neq: False
      then have "x \<le> last xs" using Cons by simp
      then show ?thesis using False by simp
    qed
  qed
qed

lemma last_page_iff:
  assumes "0 < step" and "p \<in> set (range_up i stop step)"
  shows "stop \<le> p + step \<longleftrightarrow> p = last (range_up i stop step)"
proof -
  let ?pages = "range_up i stop step"
  let ?L = "last ?pages"
  have ne: "?pages \<noteq> []" using assms(2) by auto
  have mem: "\<And>x. x \<in> set ?pages \<longleftrightarrow> i \<le> x \<and> x < stop \<and> step dvd (x - i)"
    unfolding range_up_set [OF assms(1)] by simp
  have L: "?L \<in> set ?pages" using ne by (rule last_in_set)
  have Li: "i \<le> ?L" and Ls: "?L < stop" and Ld: "step dvd (?L - i)"
    using L unfolding mem by blast+
  have pli: "i \<le> p" and ps: "p < stop" and pd: "step dvd (p - i)"
    using assms(2) unfolding mem by blast+
  have sorted: "sorted_wrt (<) ?pages" using assms(1) by (rule range_up_sorted)
  have le: "p \<le> ?L"
    using sorted assms(2) by (rule strictly_sorted_le_last)
  have top: "stop \<le> ?L + step"
  proof (rule ccontr)
    assume "\<not> stop \<le> ?L + step"
    then have 1: "?L + step < stop" by simp
    have "step dvd ((?L - i) + step)" using Ld by simp
    then have 2: "step dvd (?L + step - i)" by (simp add: algebra_simps)
    have 3: "i \<le> ?L + step" using Li assms(1) by simp
    have "?L + step \<in> set ?pages" unfolding mem using 1 2 3 by blast
    with sorted have "?L + step \<le> ?L" by (rule strictly_sorted_le_last)
    then show False using assms(1) by simp
  qed
  show ?thesis
  proof
    assume a: "stop \<le> p + step"
    have "step dvd ((?L - i) - (p - i))" using Ld pd by (rule dvd_diff)
    then have d: "step dvd (?L - p)" by simp
    have "\<not> 0 < ?L - p"
    proof
      assume "0 < ?L - p"
      with d have "step \<le> ?L - p" by (rule zdvd_imp_le)
      then show False using a Ls by simp
    qed
    then show "p = ?L" using le by simp
  next
    assume "p = ?L"
    then show "stop \<le> p + step" using top by simp
  qed
qed

lemma drain_files:
  "files (drain net k st order)
     = save_all (files st) (map (\<lambda>p. (k, p + MAX_RESULTS)) (filter (page_saved net k) order))"
  by (induction order arbitrary: st) (simp_all add: handle_completed_files page_saved_def)

lemma offsets_for_map [simp]: "offsets_for k (map (\<lambda>p. (k, f p)) ps) = map f ps"
  by (induction ps) (simp_all add: offsets_for_def)

lemma planning_pages:
  "get_total_issues net k = Inr (JInt total_count) \<Longrightarrow> total_count \<noteq> 0 \<Longrightarrow>
   snd (load_checkpoint fs k) = Inr (JInt start) \<Longrightarrow>
     planning net fs k = Inr (Pages (range_up start total_count MAX_RESULTS))"
  by (simp add: planning_def bind_err_def plan_def py_range_def MAX_RESULTS_def)

lemma load_after_drain:
  assumes "writable (files st) k"
  shows "snd (load_checkpoint (files (drain net k st order)) k)
     = (if filter (page_saved net k) order = [] then snd (load_checkpoint (files st) k)
        else Inr (JInt (last (filter (page_saved net k) order) + MAX_RESULTS)))"
proof -
  let ?calls = "map (\<lambda>p. (k, p + MAX_RESULTS)) (filter (page_saved net k) order)"
  have own: "\<forall>call \<in> set ?calls. fst call = k
      \<or> os_locate (files st) (checkpoint_file (fst call))
          \<noteq> os_locate (files st) (checkpoint_file k)"
    by simp
  note load = save_all_load [OF assms own]
  show ?thesis
  proof (cases "filter (page_saved net k) order = []")
    case True
    then show ?thesis using load by (simp add: drain_files)
  next
    case False
    then obtain x xs where xs: "map (\<lambda>p. p + MAX_RESULTS) (filter (page_saved net k) order) = x # xs"
      by (cases "filter (page_saved net k) order") auto
    have "last (x # xs) = last (filter (page_saved net k) order) + MAX_RESULTS"
      unfolding xs [symmetric] using False by (simp add: last_map)
    then show ?thesis using False xs load by (simp add: drain_files)
  qed
qed

lemma total_two_pages: "get_total_issues two_pages ''ACE'' = Inr (JInt 100)"
  unfolding get_total_issues_def safe_request_def attempts
  by (simp add: two_pages_def total_params_def bind_err_def)

lemma fetch_two_pages: "fetch_page two_pages ''ACE'' p = Inr (p, JList [good_issue])"
  unfolding fetch_page_def safe_request_def attempts
  by (simp add: two_pages_def page_params_def bind_err_def)

lemma saved_two_pages: "page_saved two_pages ''ACE'' p"
  by (simp add: page_saved_def fetch_two_pages result_saved_def transformed_def transform_good)

lemma pages_two_pages: "range_up 0 100 MAX_RESULTS = [0, 50]"
  by (simp add: MAX_RESULTS_def range_up.simps)

text \<open>
  Claim C2 (resume idempotence), as amended. Let a run, for a project whose checkpoint
  can be written, find a total that is not zero
  and a checkpoint \<open>start\<close>, plan \<open>pages\<close>, and see them complete in the order
  \<open>as_completed pages\<close>; \<open>saved\<close> are the pages whose unit saves a checkpoint, in that
  order. With the total unchanged and the checkpoint not reset, the next run plans
  from the offset the last save left (\<open>start\<close> when there was none), and its plan is
  empty exactly when the first run planned no page or its last save was that of the
  highest planned offset. So the second plan is empty when every page is saved and the
  highest one completes last, and it is not empty when a lower page completes after
  the highest one or no page of a plan that is not empty is saved.
\<close>

theorem resume_plan:
  assumes "get_total_issues net k = Inr (JInt total_count)" and "total_count \<noteq> 0"
    and "writable fs k" and "snd (load_checkpoint fs k) = Inr (JInt start)"
    and "pages = range_up start total_count MAX_RESULTS"
    and "set (as_completed pages) = set pages"
    and "saved = filter (page_saved net k) (as_completed pages)"
    and "next_start = (if saved = [] then start else last saved + MAX_RESULTS)"
  shows "planning net fs k = Inr (Pages pages)
    \<and> planning net (snd (scrape_project net as_completed fs k)) k
        = Inr (Pages (range_up next_start total_count MAX_RESULTS))
    \<and> (range_up next_start total_count MAX_RESULTS = []
         \<longleftrightarrow> pages = [] \<or> (saved \<noteq> [] \<and> last saved = last pages))"
proof -
  have first: "planning net fs k = Inr (Pages pages)"
    using assms(1,2,4,5) by (simp add: planning_pages)
  let ?fs1 = "snd (scrape_project net as_completed fs k)"
  have fs1: "?fs1 = files (drain net k \<lparr>results = [], files = fs\<rparr> (as_completed pages))"
    by (simp add: scrape_project_def first Let_def)
  have w: "writable (files \<lparr>results = [], files = fs\<rparr>) k"
    using assms(3) by simp
  have "snd (load_checkpoint ?fs1 k) = Inr (JInt next_start)"
    unfolding fs1 load_after_drain [OF w] using assms(4,7,8) by simp
  then have second: "planning net ?fs1 k = Inr (Pages (range_up next_start total_count MAX_RESULTS))"
    using assms(1,2) by (simp add: planning_pages)
  have step: "0 < MAX_RESULTS" by (simp add: MAX_RESULTS_def)
  have empty: "range_up next_start total_count MAX_RESULTS = []
      \<longleftrightarrow> pages = [] \<or> (saved \<noteq> [] \<and> last saved = last pages)"
  proof (cases "saved = []")
    case True
    then show ?thesis using assms(5,8) by simp
  next
    case False
    then have "last saved \<in> set saved" by simp
    then have mem: "last saved \<in> set (range_up start total_count MAX_RESULTS)"
      using assms(5,6,7) by auto
    then have "pages \<noteq> []" using assms(5) by auto
    moreover have "range_up next_start total_count MAX_RESULTS = []
        \<longleftrightarrow> total_count \<le> last saved + MAX_RESULTS"
      using False assms(8) step by (simp add: range_up_Nil_iff)
    ultimately show ?thesis
      using False last_page_iff [OF step mem] assms(5) by simp
  qed
  show ?thesis using first second empty by simp
qed

text \<open>Two pages, both saved, completing in ascending order: the next plan is empty.\<close>

theorem resume_plan_witness:
  "planning two_pages fresh_disk ''ACE'' = Inr (Pages [0, 50])
   \<and> planning two_pages (snd (scrape_project two_pages (\<lambda>pages. pages) fresh_disk ''ACE'')) ''ACE''
       = Inr (Pages [])"
proof -
  have "planning two_pages fresh_disk ''ACE'' = Inr (Pages [0, 50])
      \<and> planning two_pages (snd (scrape_project two_pages (\<lambda>pages. pages) fresh_disk ''ACE''))
            ''ACE''
          = Inr (Pages (range_up 100 100 MAX_RESULTS))
      \<and> (range_up 100 100 MAX_RESULTS = []
           \<longleftrightarrow> [0, 50 :: int] = []
               \<or> ([0, 50 :: int] \<noteq> [] \<and> last [0, 50 :: int] = last [0, 50 :: int]))"
    by (rule resume_plan [where total_count = 100 and start = 0 and pages = "[0, 50]"
          and saved = "[0, 50]" and next_start = 100])
      (simp_all add: total_two_pages load_fresh pages_two_pages saved_two_pages plain_ACE
          usable_writable usable_fresh_disk,
        simp add: MAX_RESULTS_def)
  then show ?thesis by simp
qed

text \<open>
  Claim C2 as stated fails when the pages complete in descending order: the page at 50
  stores 100, the page at 0 then stores 50, and with the same total of 100 the next run
  plans the page at 50 again.
\<close>

theorem resume_replans_counterexample:
  "planning two_pages fresh_disk ''ACE'' = Inr (Pages [0, 50])
   \<and> planning two_pages (snd (scrape_project two_pages rev fresh_disk ''ACE'')) ''ACE''
       = Inr (Pages [50])"
proof -
  let ?fs1 = "snd (scrape_project two_pages rev fresh_disk ''ACE'')"
  have first: "planning two_pages fresh_disk ''ACE'' = Inr (Pages [0, 50])"
    using planning_pages [of two_pages "''ACE''" 100 fresh_disk 0]
    by (simp add: total_two_pages load_fresh plain_ACE pages_two_pages)
  have fs1: "?fs1 = files (drain two_pages ''ACE'' \<lparr>results = [], files = fresh_disk\<rparr> (rev [0, 50]))"
    by (simp add: scrape_project_def first Let_def del: drain.simps)
  have "snd (load_checkpoint ?fs1 ''ACE'') = Inr (JInt 50)"
    unfolding fs1
    by (simp add: load_after_drain usable_writable usable_fresh_disk plain_ACE saved_two_pages
        MAX_RESULTS_def del: drain.simps)
  then have "planning two_pages ?fs1 ''ACE'' = Inr (Pages (range_up 50 100 MAX_RESULTS))"
    using planning_pages [of two_pages "''ACE''" 100 ?fs1 50] by (simp add: total_two_pages)
  then show ?thesis using first by (simp add: MAX_RESULTS_def range_up.simps)
qed

end
